theory Spec2Isabelle
  imports
    Main
    "HOL-Library.Char_ord"
    "HOL-Library.List_Lexorder"
    "HOL-Library.Product_Lexorder"
    "HOL-Library.Word"
begin

section \<open>JavaScript values and objects\<close>

text \<open>
  The decoders of \<^verbatim>\<open>data.preview.ts\<close> pass untyped (\<^verbatim>\<open>any\<close>) values around. A value is a
  primitive or a non-null object; an object is represented by its own enumerable
  string-keyed properties, listed in the order \<^verbatim>\<open>Object.keys\<close> enumerates them. Arrays,
  byte buffers and dates are objects for \<^verbatim>\<open>typeof\<close>: an array or buffer is the object of
  its index properties \<^verbatim>\<open>"0"\<close>, \<^verbatim>\<open>"1"\<close>, ..., a date is an object without own enumerable
  properties. Number payloads are never inspected by the modelled code and are carried
  as integers. The name \<^verbatim>\<open>__proto__\<close> is no ordinary key: the objects the Arrow decoder
  fills under arbitrary field names are modelled with it (\<open>literal_set\<close> below); the rows
  the flattener reads come from the Avro library, which builds them by assignment, so they
  hold no own property of that name and the flattener never assigns to it.
  Strings are byte sequences; the code only tests them for emptiness and splits them at
  the ASCII delimiters \<^verbatim>\<open>.\<close> and \<^verbatim>\<open><\<close>, where bytes and UTF-16 units agree.
\<close>

datatype jsval =
    JUndefined
  | JNull
  | JBool bool
  | JNum int
  | JStr string
  | JObj "(string \<times> jsval) list"

type_synonym 'v object = "(string \<times> 'v) list"

type_synonym row = "jsval object"

text \<open>
  Property order. \<^verbatim>\<open>Object.keys\<close> lists array-index keys first, in ascending numeric
  order, then every other key in the order of its creation. An array index is a canonical
  decimal numeral (no leading zero) of value at most \<open>2^32 - 2\<close>; on canonical numerals the
  numeric order is the order by length first and by digits second.
\<close>

definition is_digit :: "char \<Rightarrow> bool" where
  "is_digit c = (c \<in> set ''0123456789'')"

definition index_less :: "string \<Rightarrow> string \<Rightarrow> bool" where
  "index_less a b = ((length a, a) < (length b, b))"

definition is_array_index :: "string \<Rightarrow> bool" where
  "is_array_index k =
     (k \<noteq> [] \<and> list_all is_digit k \<and> (k = ''0'' \<or> hd k \<noteq> CHR ''0'')
      \<and> \<not> index_less ''4294967294'' k)"

definition key_before :: "string \<Rightarrow> string \<Rightarrow> bool" where
  "key_before a b = (if is_array_index b then is_array_index a \<and> index_less a b else True)"

abbreviation object_keys :: "'v object \<Rightarrow> string list" where
  "object_keys obj \<equiv> map fst obj"

text \<open>The invariant of every object: its keys are distinct and in enumeration order.\<close>

definition js_object :: "'v object \<Rightarrow> bool" where
  "js_object obj = (distinct (object_keys obj) \<and> sorted_wrt key_before (object_keys obj))"

text \<open>
  The assignment \<^verbatim>\<open>obj[k] = v\<close> under a key that is stored as a property, which is every
  key but \<^verbatim>\<open>__proto__\<close> (for that one see \<open>literal_set\<close> below): an existing property keeps
  its place and takes the new value; a new array-index key goes to its numeric position
  among the index keys; any other new key goes last.
\<close>

fun overwrite :: "string \<Rightarrow> 'v \<Rightarrow> 'v object \<Rightarrow> 'v object" where
  "overwrite k v [] = []"
| "overwrite k v ((k', v') # es) =
     (if k' = k then (k', v) # es else (k', v') # overwrite k v es)"

fun insert_index :: "string \<Rightarrow> 'v \<Rightarrow> 'v object \<Rightarrow> 'v object" where
  "insert_index k v [] = [(k, v)]"
| "insert_index k v ((k', v') # es) =
     (if is_array_index k' \<and> index_less k' k then (k', v') # insert_index k v es
      else (k, v) # (k', v') # es)"

definition set_prop :: "'v object \<Rightarrow> string \<Rightarrow> 'v \<Rightarrow> 'v object" where
  "set_prop obj k v =
     (if k \<in> set (object_keys obj) then overwrite k v obj
      else if is_array_index k then insert_index k v obj
      else obj @ [(k, v)])"

text \<open>\<^verbatim>\<open>Object.assign(target, source)\<close>: every property of the source, in its order, is
  assigned to the target.\<close>

definition assign :: "'v object \<Rightarrow> 'v object \<Rightarrow> 'v object" where
  "assign target source = fold (\<lambda>(k, v) acc. set_prop acc k v) source target"

text \<open>
  An object written \<^verbatim>\<open>{}\<close> inherits from \<^verbatim>\<open>Object.prototype\<close>, whose only accessor property
  is \<^verbatim>\<open>__proto__\<close>. An assignment to that name on such an object stores nothing: it runs the
  inherited setter, which replaces the prototype when the value is \<^verbatim>\<open>null\<close> or an object
  and does nothing for any other value. Once the prototype is \<^verbatim>\<open>null\<close> nothing is inherited
  and \<^verbatim>\<open>__proto__\<close> is stored like any other key. An object that becomes the prototype is
  taken to be a plain object or an array, which passes the accessor on and has no say in
  other assignments; so the model keeps, beside the own properties, only whether the
  prototype is \<^verbatim>\<open>null\<close>. \<open>literal_set is_null obj k v\<close> is \<^verbatim>\<open>obj[k] = v\<close> on such an object,
  where \<open>is_null\<close> tells whether a value is \<^verbatim>\<open>null\<close>.
\<close>

record 'v literal_object =
  props :: "'v object"
  null_prototype :: bool

definition empty_literal :: "'v literal_object" where
  "empty_literal = \<lparr>props = [], null_prototype = False\<rparr>"

definition literal_set ::
  "('v \<Rightarrow> bool) \<Rightarrow> 'v literal_object \<Rightarrow> string \<Rightarrow> 'v \<Rightarrow> 'v literal_object" where
  "literal_set is_null obj k v =
     (if k = ''__proto__'' \<and> \<not> null_prototype obj
      then (if is_null v then obj\<lparr>null_prototype := True\<rparr> else obj)
      else obj\<lparr>props := set_prop (props obj) k v\<rparr>)"

section \<open>Row flattener\<close>

text \<open>
  \<^verbatim>\<open>flattenObject\<close> (lines 474-484). \<open>flattenKeys\<close> is the \<^verbatim>\<open>forEach\<close> loop over
  \<^verbatim>\<open>Object.keys(obj)\<close>, carrying \<^verbatim>\<open>flatObject\<close>: a value with
  \<^verbatim>\<open>typeof v === 'object' && v !== null\<close> is flattened and merged, any other value is
  stored under its key.
\<close>

fun flattenObject :: "row \<Rightarrow> row"
and flattenKeys :: "row \<Rightarrow> row \<Rightarrow> row" where
  "flattenObject obj = flattenKeys obj []"
| "flattenKeys [] flatObject = flatObject"
| "flattenKeys ((key, JObj sub) # rest) flatObject =
     flattenKeys rest (assign flatObject (flattenObject sub))"
| "flattenKeys ((key, v) # rest) flatObject = flattenKeys rest (set_prop flatObject key v)"

text \<open>A value that is not a non-null object, and a record all of whose values are such.\<close>

fun is_scalar :: "jsval \<Rightarrow> bool" where
  "is_scalar (JObj sub) = False"
| "is_scalar v = True"

definition is_flat :: "row \<Rightarrow> bool" where
  "is_flat obj = list_all (\<lambda>(k, v). is_scalar v) obj"

section \<open>Schema type mapper\<close>

text \<open>
  The table \<^verbatim>\<open>dataTypes\<close> of \<^verbatim>\<open>config.ts\<close> (lines 572-585), in its order. The keys looked
  up in it are the type names Arrow prints; the members every JavaScript object inherits
  (such as \<^verbatim>\<open>toString\<close>) are not type names and are outside the model, so a key missing
  from the table reads as \<^verbatim>\<open>undefined\<close>, here \<open>None\<close>.
\<close>

definition dataTypes :: "string object" where
  "dataTypes =
     [(''Binary'', ''string''),
      (''Bool'', ''boolean''),
      (''Date'', ''date''),
      (''Dictionary'', ''string''),
      (''Float32'', ''float''),
      (''Float64'', ''float''),
      (''Int8'', ''integer''),
      (''Int16'', ''integer''),
      (''Int32'', ''integer''),
      (''Int64'', ''integer''),
      (''Timestamp'', ''datetime''),
      (''Utf8'', ''string'')]"

text \<open>The string methods the code calls: \<^verbatim>\<open>indexOf\<close> and \<^verbatim>\<open>lastIndexOf\<close> answer \<open>-1\<close> when
  the character is absent, \<^verbatim>\<open>substring\<close> clamps its bounds and swaps them when they are out
  of order, \<^verbatim>\<open>substr\<close> counts a negative start from the end.\<close>

definition indexOf :: "string \<Rightarrow> char \<Rightarrow> int" where
  "indexOf s c = (if c \<in> set s then int (length (takeWhile (\<lambda>x. x \<noteq> c) s)) else - 1)"

definition lastIndexOf :: "string \<Rightarrow> char \<Rightarrow> int" where
  "lastIndexOf s c =
     (if c \<in> set s then int (length s) - 1 - int (length (takeWhile (\<lambda>x. x \<noteq> c) (rev s)))
      else - 1)"

definition substring :: "string \<Rightarrow> int \<Rightarrow> int \<Rightarrow> string" where
  "substring s start end =
     (let n = int (length s);
          a = max 0 (min start n);
          b = max 0 (min end n)
      in take (nat (max a b - min a b)) (drop (nat (min a b)) s))"

definition substr :: "string \<Rightarrow> int \<Rightarrow> string" where
  "substr s start =
     drop (nat (if start < 0 then max 0 (int (length s) + start) else start)) s"

text \<open>
  The mapping of one field type inside \<^verbatim>\<open>getArrowData\<close> (lines 392-397): the printed
  type is cut at its first \<^verbatim>\<open><\<close> when that stands after the first character, and the
  result is looked up in the table.
\<close>

definition mapType :: "string \<Rightarrow> string option" where
  "mapType typeString =
     (let typesIndex = indexOf typeString CHR ''<'';
          fieldType = (if typesIndex > 0 then substring typeString 0 typesIndex else typeString)
      in map_of dataTypes fieldType)"

section \<open>Collaborators and session state\<close>

text \<open>
  A thrown value: the \<^verbatim>\<open>TypeError\<close> of reading the named property of \<^verbatim>\<open>null\<close>, or an error
  of a library call with its message.
\<close>

datatype js_error = TypeError string | Error string

type_synonym byte = "8 word"

text \<open>
  An Arrow table as \<^verbatim>\<open>getArrowData\<close> reads it: its length, the name and the printed type
  of every schema field, and \<^verbatim>\<open>getColumnAt(index).get(i)\<close>.
\<close>

record Table =
  table_length :: nat
  schema_fields :: "(string \<times> string) list"
  column_get :: "nat \<Rightarrow> nat \<Rightarrow> jsval"

text \<open>A workbook of the spreadsheet library: the sheet names in order, and the sheets by
  name (a missing name reads as \<^verbatim>\<open>undefined\<close>).\<close>

record 'sheet WorkBook =
  SheetNames :: "string list"
  Sheets :: "string \<Rightarrow> 'sheet option"

datatype xlsx_type = type_binary | type_file

text \<open>
  The calls into the host and the libraries, whose code is not in the repository. Each call
  that can throw returns its error on the left. \<open>data_path h fsPath filePath\<close> stands for
  \<^verbatim>\<open>path.join(path.dirname(fsPath), filePath)\<close>. Logging is a side channel without
  influence on any result and is left out.
\<close>

record 'sheet host =
  data_path :: "string \<Rightarrow> string \<Rightarrow> string"
  existsSync :: "string \<Rightarrow> bool"
  readFileSync_utf8 :: "string \<Rightarrow> js_error + string"
  readFileSync :: "string \<Rightarrow> js_error + byte list"
  xlsx_readFile :: "string \<Rightarrow> xlsx_type \<Rightarrow> js_error + 'sheet WorkBook"
  sheet_to_json :: "'sheet option \<Rightarrow> js_error + row list"
  Table_from :: "byte list \<Rightarrow> js_error + Table"

text \<open>What \<^verbatim>\<open>getFileData\<close> returns when it returns data: the text of a file, or rows.\<close>

datatype data = Text string | Rows "row list"

fun data_length :: "data \<Rightarrow> nat" where
  "data_length (Text text) = length text"
| "data_length (Rows rs) = length rs"

type_synonym schema = "string option object"

text \<open>
  The messages posted to the webview: the refresh payload with its file name, URI, view
  configuration, schema and data, or the error payload.
\<close>

datatype message =
    Refresh string string jsval "schema option" data
  | ErrorPayload js_error

datatype notice = ErrorMessage string | InformationMessage string

text \<open>
  The events of the Avro block decoder, and the variables the listeners of
  \<^verbatim>\<open>getAvroData\<close> close over. The rows of an Avro container file are records. The decoder
  reports a failure, such as a file that is no Avro container, as an \<^verbatim>\<open>error\<close> event.
\<close>

datatype avro_event = Metadata jsval | Data row | End | ErrorEvent js_error

record avro_closure =
  dataRows :: "row list"
  dataSchema :: jsval
  rows :: "row list"

text \<open>
  The state of a \<^verbatim>\<open>DataPreview\<close> that the modelled methods read and write, with the effects
  they have on their surroundings: the messages posted to the webview, the notices shown
  in the window, the Avro decoders whose listeners are registered, and the exceptions that
  no handler caught and that reached the event loop of the host.
\<close>

record DataPreview =
  fsPath :: string
  uri :: string
  fileName :: string
  config :: jsval
  schema :: "schema option"
  posted :: "message list"
  notices :: "notice list"
  decoders :: "avro_closure list"
  uncaught :: "js_error list"

definition postMessage :: "message \<Rightarrow> DataPreview \<Rightarrow> DataPreview" where
  "postMessage m this = this\<lparr>posted := posted this @ [m]\<rparr>"

definition refresh_message :: "DataPreview \<Rightarrow> data \<Rightarrow> message" where
  "refresh_message this d = Refresh (fileName this) (uri this) (config this) (schema this) d"

section \<open>Format decoders\<close>

text \<open>\<^verbatim>\<open>getExcelData\<close> (lines 347-368) with its two callers.\<close>

definition getExcelData :: "'sheet host \<Rightarrow> 'sheet WorkBook \<Rightarrow> js_error + row list" where
  "getExcelData h workbook =
     (if length (SheetNames workbook) > 0
      then sheet_to_json h (Sheets workbook (SheetNames workbook ! 0))
      else Inr [])"

definition getBinaryExcelData :: "'sheet host \<Rightarrow> string \<Rightarrow> js_error + row list" where
  "getBinaryExcelData h dataFilePath =
     (case xlsx_readFile h dataFilePath type_binary of
        Inl e \<Rightarrow> Inl e
      | Inr workbook \<Rightarrow> getExcelData h workbook)"

definition getTextExcelData :: "'sheet host \<Rightarrow> string \<Rightarrow> js_error + row list" where
  "getTextExcelData h dataFilePath =
     (case xlsx_readFile h dataFilePath type_file of
        Inl e \<Rightarrow> Inl e
      | Inr workbook \<Rightarrow> getExcelData h workbook)"

text \<open>
  \<^verbatim>\<open>getArrowData\<close> (lines 375-405). \<open>arrow_row\<close> is the body of the loop over the rows:
  an empty \<^verbatim>\<open>proto\<close> that takes, for every field name with its position, the value of
  that column at the row. \<open>arrow_schema\<close> is the schema built from the fields; its values
  are strings or \<^verbatim>\<open>undefined\<close>, never \<^verbatim>\<open>null\<close>. Both objects are written \<^verbatim>\<open>{}\<close> and filled
  under the field names, which are arbitrary strings.
\<close>

definition arrow_row :: "Table \<Rightarrow> nat \<Rightarrow> row" where
  "arrow_row dataTable i =
     (let fields = map fst (schema_fields dataTable)
      in props (fold (\<lambda>(fieldName, index) proto.
                 literal_set (\<lambda>v. v = JNull) proto fieldName (column_get dataTable index i))
           (zip fields [0 ..< length fields]) empty_literal))"

definition arrow_schema :: "Table \<Rightarrow> schema" where
  "arrow_schema dataTable =
     props (fold (\<lambda>(name, type) sch. literal_set (\<lambda>v. False) sch name (mapType type))
       (schema_fields dataTable) empty_literal)"

definition getArrowData ::
  "'sheet host \<Rightarrow> DataPreview \<Rightarrow> string \<Rightarrow> (js_error + row list) \<times> DataPreview" where
  "getArrowData h this dataFilePath =
     (case readFileSync h dataFilePath of
        Inl e \<Rightarrow> (Inl e, this)
      | Inr dataBuffer \<Rightarrow>
          (case Table_from h dataBuffer of
             Inl e \<Rightarrow> (Inl e, this)
           | Inr dataTable \<Rightarrow>
               (Inr (map (arrow_row dataTable) [0 ..< table_length dataTable]),
                this\<lparr>schema := Some (arrow_schema dataTable)\<rparr>)))"

text \<open>
  \<^verbatim>\<open>getAvroData\<close> (lines 426-447) creates a block decoder, registers three listeners
  and returns its variable \<^verbatim>\<open>rows\<close>. The decoder reads the file as a stream, so it emits
  its events after the call has returned: the call only records the new decoder with the
  initial values of the variables. \<open>avro_on\<close> is what the listeners do on an event, and
  \<open>emit n\<close> delivers an event to the listeners of the \<open>n\<close>-th decoder. No listener is
  registered for \<^verbatim>\<open>error\<close>: an emitter without such a listener throws the error it is asked
  to emit, and nothing on the way of that exception catches it.
\<close>

definition getAvroData :: "DataPreview \<Rightarrow> string \<Rightarrow> row list \<times> DataPreview" where
  "getAvroData this dataFilePath =
     (let closure = \<lparr>dataRows = [], dataSchema = JObj [], rows = []\<rparr>
      in (rows closure, this\<lparr>decoders := decoders this @ [closure]\<rparr>))"

fun avro_on ::
  "avro_event \<Rightarrow> avro_closure \<Rightarrow> DataPreview \<Rightarrow> avro_closure \<times> DataPreview" where
  "avro_on (Metadata type) c this = (c\<lparr>dataSchema := type\<rparr>, this)"
| "avro_on (Data d) c this = (c\<lparr>dataRows := dataRows c @ [d]\<rparr>, this)"
| "avro_on End c this =
     (let c' = c\<lparr>rows := map flattenObject (dataRows c)\<rparr>
      in (c', postMessage (refresh_message this (Rows (rows c'))) this))"
| "avro_on (ErrorEvent e) c this = (c, this\<lparr>uncaught := uncaught this @ [e]\<rparr>)"

definition emit :: "nat \<Rightarrow> avro_event \<Rightarrow> DataPreview \<Rightarrow> DataPreview" where
  "emit n ev this =
     (if n < length (decoders this)
      then (case avro_on ev (decoders this ! n) this of
              (c', this') \<Rightarrow> this'\<lparr>decoders := (decoders this')[n := c']\<rparr>)
      else this)"

text \<open>The rows a sequence of events carries, in the order of their \<^verbatim>\<open>data\<close> events.\<close>

fun emitted_rows :: "avro_event list \<Rightarrow> row list" where
  "emitted_rows [] = []"
| "emitted_rows (Data d # evs) = d # emitted_rows evs"
| "emitted_rows (ev # evs) = emitted_rows evs"

section \<open>Ingestion dispatcher and preview session\<close>

text \<open>
  \<^verbatim>\<open>getFileData\<close> (lines 265-312): the result is \<^verbatim>\<open>null\<close> (\<open>None\<close>), a text or rows, or
  the error a decoder threw, together with the state the call leaves. The extension is
  \<^verbatim>\<open>filePath.substr(filePath.lastIndexOf('.'))\<close>.
\<close>

definition dataFileExt :: "string \<Rightarrow> string" where
  "dataFileExt filePath = substr filePath (lastIndexOf filePath CHR ''.'')"

definition getFileData ::
  "'sheet host \<Rightarrow> DataPreview \<Rightarrow> string \<Rightarrow> (js_error + data option) \<times> DataPreview" where
  "getFileData h this filePath =
     (let dataFilePath = data_path h (fsPath this) filePath in
      if \<not> existsSync h dataFilePath
      then (Inr None,
            this\<lparr>notices := notices this @ [ErrorMessage (filePath @ '' doesn't exist!'')]\<rparr>)
      else if dataFileExt filePath \<in> set [''.csv'', ''.tsv'', ''.txt'', ''.tab'', ''.json'']
      then (case readFileSync_utf8 h dataFilePath of
              Inl e \<Rightarrow> (Inl e, this)
            | Inr text \<Rightarrow> (Inr (Some (Text text)), this))
      else if dataFileExt filePath
                \<in> set [''.xls'', ''.xlsb'', ''.xlsx'', ''.xlsm'', ''.slk'', ''.ods'', ''.prn'']
      then (case getBinaryExcelData h dataFilePath of
              Inl e \<Rightarrow> (Inl e, this)
            | Inr rs \<Rightarrow> (Inr (Some (Rows rs)), this))
      else if dataFileExt filePath \<in> set [''.dif'', ''.xml'', ''.html'']
      then (case getTextExcelData h dataFilePath of
              Inl e \<Rightarrow> (Inl e, this)
            | Inr rs \<Rightarrow> (Inr (Some (Rows rs)), this))
      else if dataFileExt filePath = ''.arrow''
      then (case getArrowData h this dataFilePath of
              (Inl e, this') \<Rightarrow> (Inl e, this')
            | (Inr rs, this') \<Rightarrow> (Inr (Some (Rows rs)), this'))
      else if dataFileExt filePath = ''.avro''
      then (case getAvroData this dataFilePath of
              (rs, this') \<Rightarrow> (Inr (Some (Rows rs)), this'))
      else if dataFileExt filePath = ''.parquet''
      then (Inr None,
            this\<lparr>notices := notices this
               @ [InformationMessage ''Parquet data format support coming soon!'']\<rparr>)
      else (Inr None, this))"

text \<open>
  \<^verbatim>\<open>refresh\<close> (lines 229-257). \<open>refresh_try\<close> is the body of its \<^verbatim>\<open>try\<close> block, which
  reads \<^verbatim>\<open>data.length\<close>: on \<^verbatim>\<open>null\<close> that read throws a \<^verbatim>\<open>TypeError\<close>. \<open>refresh\<close> adds the
  \<^verbatim>\<open>catch\<close> block, which posts the error; a result on the left would be an exception
  that leaves \<^verbatim>\<open>refresh\<close>. The calls of the host outside the \<^verbatim>\<open>try\<close> block (revealing the
  panel before it, logging and posting inside the \<^verbatim>\<open>catch\<close> block) are taken to return.
\<close>

definition refresh_try ::
  "'sheet host \<Rightarrow> DataPreview \<Rightarrow> (js_error + unit) \<times> DataPreview" where
  "refresh_try h this =
     (case getFileData h this (fileName this) of
        (Inl e, this') \<Rightarrow> (Inl e, this')
      | (Inr None, this') \<Rightarrow> (Inl (TypeError ''length''), this')
      | (Inr (Some d), this') \<Rightarrow>
          if data_length d > 0
          then (Inr (), postMessage (refresh_message this' d) this')
          else (Inr (), this'))"

definition refresh :: "'sheet host \<Rightarrow> DataPreview \<Rightarrow> js_error + DataPreview" where
  "refresh h this =
     (case refresh_try h this of
        (Inl error, this') \<Rightarrow> Inr (postMessage (ErrorPayload error) this')
      | (Inr u, this') \<Rightarrow> Inr this')"

section \<open>A sample host\<close>

text \<open>
  A small host to run the model on: every file but \<^verbatim>\<open>gone.csv\<close> exists, \<^verbatim>\<open>empty.csv\<close> is
  empty, \<^verbatim>\<open>bad.xlsx\<close> is a malformed workbook, every other workbook has two sheets, and
  every Arrow file holds a table of three rows and two columns.
\<close>

definition sample_table :: Table where
  "sample_table =
     \<lparr>table_length = 3,
      schema_fields = [(''id'', ''Int32''), (''tags'', ''List<Utf8>'')],
      column_get = (\<lambda>index i. if index = 0 then JNum (int i) else JStr ''t'')\<rparr>"

definition sample_workbook :: "string WorkBook" where
  "sample_workbook =
     \<lparr>SheetNames = [''S1'', ''S2''],
      Sheets = [''S1'' \<mapsto> ''first'', ''S2'' \<mapsto> ''second'']\<rparr>"

definition sample_host :: "string host" where
  "sample_host =
     \<lparr>data_path = (\<lambda>fsPath filePath. ''/data/'' @ filePath),
      existsSync = (\<lambda>p. p \<noteq> ''/data/gone.csv''),
      readFileSync_utf8 =
        (\<lambda>p. if p = ''/data/empty.csv'' then Inr [] else Inr ''a,b\<newline>1,2\<newline>''),
      readFileSync = (\<lambda>p. Inr [1, 2, 3]),
      xlsx_readFile =
        (\<lambda>p t. if p = ''/data/bad.xlsx'' then Inl (Error ''bad workbook'')
               else Inr sample_workbook),
      sheet_to_json =
        (\<lambda>sheet. if sheet = Some ''first'' then Inr [[(''a'', JNum 1)]] else Inr []),
      Table_from = (\<lambda>bytes. Inr sample_table)\<rparr>"

definition sample_preview :: "string \<Rightarrow> DataPreview" where
  "sample_preview f =
     \<lparr>fsPath = ''/data/'' @ f, uri = ''file:///data/'' @ f, fileName = f, config = JObj [],
      schema = None, posted = [], notices = [], decoders = [], uncaught = []\<rparr>"





section \<open>Properties of objects\<close>

lemma index_less_trans: "index_less a b \<Longrightarrow> index_less b c \<Longrightarrow> index_less a c"
  unfolding index_less_def by (rule less_trans)

lemma index_less_total: "a \<noteq> b \<Longrightarrow> index_less a b \<or> index_less b a"
  unfolding index_less_def by auto

lemma key_before_trans: "key_before a b \<Longrightarrow> key_before b c \<Longrightarrow> key_before a c"
  by (auto simp: key_before_def dest: index_less_trans split: if_splits)

lemma set_insert_index: "set (insert_index k v obj) = insert (k, v) (set obj)"
  by (induction obj) (auto split: if_splits)

lemma keys_insert_index:
  "set (object_keys (insert_index k v obj)) = insert k (set (object_keys obj))"
  by (simp add: set_insert_index)

lemma keys_overwrite: "object_keys (overwrite k v obj) = object_keys obj"
  by (induction obj) auto

lemma keys_set_prop:
  "set (object_keys (set_prop obj k v)) = insert k (set (object_keys obj))"
proof (cases "k \<in> set (object_keys obj)")
  case True
  then have "set_prop obj k v = overwrite k v obj" by (simp only: set_prop_def if_True)
  then have "set (object_keys (set_prop obj k v)) = set (object_keys obj)"
    by (simp only: keys_overwrite)
  with True show ?thesis by blast
next
  case False
  show ?thesis
  proof (cases "is_array_index k")
    case True
    with False have "set_prop obj k v = insert_index k v obj"
      by (simp only: set_prop_def if_False if_True)
    then show ?thesis by (simp only: keys_insert_index)
  next
    case nidx: False
    with False have "set_prop obj k v = obj @ [(k, v)]"
      by (simp only: set_prop_def if_False)
    then show ?thesis by simp
  qed
qed

lemma distinct_insert_index:
  "k \<notin> set (object_keys obj) \<Longrightarrow> distinct (object_keys obj)
     \<Longrightarrow> distinct (object_keys (insert_index k v obj))"
proof (induction obj)
  case Nil
  then show ?case by simp
next
  case (Cons e obj)
  obtain k' v' where e: "e = (k', v')" by (cases e)
  from Cons have "k \<noteq> k'" "k \<notin> set (object_keys obj)" "k' \<notin> set (object_keys obj)"
    "distinct (object_keys obj)"
    by (auto simp: e)
  with Cons.IH show ?case
    using keys_insert_index [of k v obj] by (auto simp: e simp del: set_map)
qed

lemma sorted_insert_index:
  assumes "is_array_index k" "k \<notin> set (object_keys obj)"
    "sorted_wrt key_before (object_keys obj)"
  shows "sorted_wrt key_before (object_keys (insert_index k v obj))"
  using assms(2,3)
proof (induction obj)
  case Nil
  then show ?case by simp
next
  case (Cons e obj)
  obtain k' v' where e: "e = (k', v')" by (cases e)
  from Cons.prems have nk: "k \<noteq> k'" and nin: "k \<notin> set (object_keys obj)"
    and hd: "\<forall>x \<in> set (object_keys obj). key_before k' x"
    and tl: "sorted_wrt key_before (object_keys obj)"
    by (auto simp: e)
  show ?case
  proof (cases "is_array_index k' \<and> index_less k' k")
    case True
    then have kb: "key_before k' k" using assms(1) by (simp add: key_before_def)
    have "\<forall>x \<in> set (object_keys (insert_index k v obj)). key_before k' x"
      using hd kb keys_insert_index [of k v obj] by (auto simp del: set_map)
    with True Cons.IH [OF nin tl] show ?thesis by (simp add: e)
  next
    case False
    have kk': "key_before k k'"
    proof (cases "is_array_index k'")
      case True
      with False have "\<not> index_less k' k" by simp
      with nk index_less_total [of k k'] have "index_less k k'" by auto
      with True assms(1) show ?thesis by (simp add: key_before_def)
    next
      case False
      then show ?thesis by (simp add: key_before_def)
    qed
    have "\<forall>x \<in> set (object_keys obj). key_before k x"
      using hd kk' key_before_trans by blast
    moreover have "insert_index k v (e # obj) = (k, v) # (k', v') # obj"
      using False by (auto simp: e)
    ultimately show ?thesis using kk' hd tl by simp
  qed
qed

lemma sorted_snoc_name:
  assumes "\<not> is_array_index k" "sorted_wrt key_before ks"
  shows "sorted_wrt key_before (ks @ [k])"
  using assms by (simp add: sorted_wrt_append key_before_def)

lemma js_object_set_prop:
  assumes "js_object obj"
  shows "js_object (set_prop obj k v)"
proof -
  from assms have d: "distinct (object_keys obj)"
    and s: "sorted_wrt key_before (object_keys obj)"
    by (simp_all add: js_object_def)
  show ?thesis
  proof (cases "k \<in> set (object_keys obj)")
    case True
    then have "set_prop obj k v = overwrite k v obj" by (simp only: set_prop_def if_True)
    with d s show ?thesis by (simp only: js_object_def keys_overwrite simp_thms)
  next
    case False
    show ?thesis
    proof (cases "is_array_index k")
      case True
      with False have "set_prop obj k v = insert_index k v obj"
        by (simp only: set_prop_def if_False if_True)
      with distinct_insert_index [OF False d] sorted_insert_index [OF True False s]
      show ?thesis by (simp only: js_object_def simp_thms)
    next
      case nidx: False
      with False have eq: "set_prop obj k v = obj @ [(k, v)]"
        by (simp only: set_prop_def if_False)
      have "object_keys (obj @ [(k, v)]) = object_keys obj @ [k]" by simp
      moreover have "distinct (object_keys obj @ [k])" using d False by simp
      moreover have "sorted_wrt key_before (object_keys obj @ [k])"
        using nidx s by (rule sorted_snoc_name)
      ultimately show ?thesis by (simp only: js_object_def eq simp_thms)
    qed
  qed
qed

lemma insert_index_last:
  assumes "\<forall>x \<in> set (object_keys obj). is_array_index x \<and> index_less x k"
  shows "insert_index k v obj = obj @ [(k, v)]"
  using assms by (induction obj) auto

lemma set_prop_snoc:
  assumes "js_object (obj @ [(k, v)])"
  shows "set_prop obj k v = obj @ [(k, v)]"
proof -
  from assms have nin: "k \<notin> set (map fst obj)"
    and kb: "\<forall>x \<in> set (object_keys obj). key_before x k"
    by (auto simp: js_object_def sorted_wrt_append)
  show ?thesis
  proof (cases "is_array_index k")
    case True
    with kb have "\<forall>x \<in> set (object_keys obj). is_array_index x \<and> index_less x k"
      by (simp add: key_before_def)
    then have "insert_index k v obj = obj @ [(k, v)]" by (rule insert_index_last)
    with True nin show ?thesis by (simp add: set_prop_def)
  next
    case False
    with nin show ?thesis by (simp add: set_prop_def)
  qed
qed

lemma js_object_prefix: "js_object (xs @ ys) \<Longrightarrow> js_object xs"
  by (simp add: js_object_def sorted_wrt_append)

text \<open>Assigning the properties of an object one by one, in their order, rebuilds it.\<close>

lemma assign_rebuild: "js_object (xs @ ys) \<Longrightarrow> assign xs ys = xs @ ys"
proof (induction ys arbitrary: xs)
  case Nil
  then show ?case by (simp add: assign_def)
next
  case (Cons e ys)
  obtain k v where e: "e = (k, v)" by (cases e)
  from Cons.prems have whole: "js_object ((xs @ [(k, v)]) @ ys)" by (simp add: e)
  then have "js_object (xs @ [(k, v)])" by (rule js_object_prefix)
  then have step: "set_prop xs k v = xs @ [(k, v)]" by (rule set_prop_snoc)
  have "assign xs (e # ys) = assign (set_prop xs k v) ys" by (simp add: assign_def e)
  also have "\<dots> = (xs @ [(k, v)]) @ ys" using Cons.IH [OF whole] step by simp
  finally show ?case by (simp add: e)
qed

section \<open>Properties of the row flattener\<close>

lemma flattenKeys_flat: "is_flat rest \<Longrightarrow> flattenKeys rest acc = assign acc rest"
proof (induction rest arbitrary: acc)
  case Nil
  then show ?case by (simp add: assign_def)
next
  case (Cons e rest)
  obtain k v where e: "e = (k, v)" by (cases e)
  from Cons.prems have sc: "is_scalar v" and fl: "is_flat rest"
    by (simp_all add: is_flat_def e)
  from sc have "flattenKeys ((k, v) # rest) acc = flattenKeys rest (set_prop acc k v)"
    by (cases v) simp_all
  with Cons.IH [OF fl] show ?case by (simp add: e assign_def)
qed

lemma is_flat_overwrite: "is_flat obj \<Longrightarrow> is_scalar v \<Longrightarrow> is_flat (overwrite k v obj)"
  by (induction obj) (auto simp: is_flat_def)

lemma is_flat_insert_index:
  "is_flat obj \<Longrightarrow> is_scalar v \<Longrightarrow> is_flat (insert_index k v obj)"
  by (induction obj) (auto simp: is_flat_def)

lemma is_flat_set_prop: "is_flat obj \<Longrightarrow> is_scalar v \<Longrightarrow> is_flat (set_prop obj k v)"
  by (simp add: set_prop_def is_flat_overwrite is_flat_insert_index) (simp add: is_flat_def)

lemma flat_object_assign:
  "js_object acc \<and> is_flat acc \<Longrightarrow> is_flat src
     \<Longrightarrow> js_object (assign acc src) \<and> is_flat (assign acc src)"
proof (induction src arbitrary: acc)
  case Nil
  then show ?case by (simp add: assign_def)
next
  case (Cons e src)
  obtain k v where e: "e = (k, v)" by (cases e)
  from Cons.prems have sc: "is_scalar v" and fl: "is_flat src"
    by (simp_all add: is_flat_def e)
  from Cons.prems sc have "js_object (set_prop acc k v) \<and> is_flat (set_prop acc k v)"
    by (simp add: js_object_set_prop is_flat_set_prop)
  from Cons.IH [OF this fl] show ?case by (simp add: assign_def e)
qed

text \<open>The flattener returns a well-formed object without nested objects, whatever it is
  given.\<close>

lemma flatten_flat_object:
  "js_object (flattenObject obj) \<and> is_flat (flattenObject obj)"
  "js_object acc \<and> is_flat acc \<Longrightarrow>
     js_object (flattenKeys rest acc) \<and> is_flat (flattenKeys rest acc)"
proof (induction obj and rest acc rule: flattenObject_flattenKeys.induct)
  case (1 obj)
  then show ?case by (simp add: js_object_def is_flat_def)
next
  case (2 flatObject)
  then show ?case by simp
next
  case (3 key sub rest flatObject)
  then show ?case using flat_object_assign by simp
qed (simp_all add: js_object_set_prop is_flat_set_prop)

lemma flattenObject_flat_id: "js_object r \<Longrightarrow> is_flat r \<Longrightarrow> flattenObject r = r"
  using assign_rebuild [of "[]" r] by (simp add: flattenKeys_flat)

text \<open>
  Claim C5. The row flattener is idempotent on every nested record (a finite value of
  \<^typ>\<open>jsval\<close> is acyclic): flattening a flattened record changes nothing; and on every
  record that is already flat (no value is a non-null object) it is the identity.
\<close>

theorem flattenObject_idempotent:
  "flattenObject (flattenObject r) = flattenObject r
   \<and> (js_object r \<and> is_flat r \<longrightarrow> flattenObject r = r)"
  using flatten_flat_object(1) [of r] flattenObject_flat_id by blast

theorem flattenObject_idempotent_witness:
  "flattenObject (flattenObject
      [(''id'', JNum 7), (''loc'', JObj [(''lat'', JNum 1), (''geo'', JObj [(''id'', JStr ''x'')])]),
       (''tag'', JNull)])
   = flattenObject
      [(''id'', JNum 7), (''loc'', JObj [(''lat'', JNum 1), (''geo'', JObj [(''id'', JStr ''x'')])]),
       (''tag'', JNull)]
   \<and> js_object [(''0'', JBool True), (''a'', JNum 1), (''b'', JNull)]
   \<and> is_flat [(''0'', JBool True), (''a'', JNum 1), (''b'', JNull)]
   \<and> flattenObject [(''0'', JBool True), (''a'', JNum 1), (''b'', JNull)]
     = [(''0'', JBool True), (''a'', JNum 1), (''b'', JNull)]"
proof -
  have w: "js_object [(''0'', JBool True), (''a'', JNum 1), (''b'', JNull)]
    \<and> is_flat [(''0'', JBool True), (''a'', JNum 1), (''b'', JNull)]"
    by code_simp
  from w flattenObject_idempotent [of "[(''0'', JBool True), (''a'', JNum 1), (''b'', JNull)]"]
    flattenObject_idempotent [of "[(''id'', JNum 7),
      (''loc'', JObj [(''lat'', JNum 1), (''geo'', JObj [(''id'', JStr ''x'')])]), (''tag'', JNull)]"]
  show ?thesis by blast
qed

section \<open>Lookup in objects built by assignment\<close>

lemma map_of_overwrite_at:
  "map_of (overwrite k v obj) x =
     (if x = k \<and> map_of obj k \<noteq> None then Some v else map_of obj x)"
  by (induction obj) auto

lemma map_of_overwrite:
  "k \<in> set (object_keys obj) \<Longrightarrow> map_of (overwrite k v obj) = (map_of obj)(k \<mapsto> v)"
  by (auto simp: fun_eq_iff map_of_overwrite_at map_of_eq_None_iff)

lemma map_of_insert_index:
  "k \<notin> set (object_keys obj) \<Longrightarrow> map_of (insert_index k v obj) = (map_of obj)(k \<mapsto> v)"
  by (induction obj) (auto simp: fun_eq_iff)

lemma map_of_snoc:
  "k \<notin> set (object_keys obj) \<Longrightarrow> map_of (obj @ [(k, v)]) = (map_of obj)(k \<mapsto> v)"
  by (induction obj) (auto simp: fun_eq_iff)

lemma map_of_set_prop: "map_of (set_prop obj k v) = (map_of obj)(k \<mapsto> v)"
proof (cases "k \<in> set (object_keys obj)")
  case True
  then have "set_prop obj k v = overwrite k v obj" by (simp only: set_prop_def if_True)
  then show ?thesis by (simp only: map_of_overwrite [OF True])
next
  case False
  show ?thesis
  proof (cases "is_array_index k")
    case True
    with False have "set_prop obj k v = insert_index k v obj"
      by (simp only: set_prop_def if_False if_True)
    then show ?thesis by (simp only: map_of_insert_index [OF False])
  next
    case nidx: False
    with False have "set_prop obj k v = obj @ [(k, v)]"
      by (simp only: set_prop_def if_False)
    then show ?thesis by (simp only: map_of_snoc [OF False])
  qed
qed

lemma assign_Cons: "assign acc ((k, v) # kvs) = assign (set_prop acc k v) kvs"
  by (simp add: assign_def)

lemma keys_assign:
  "set (object_keys (assign acc kvs)) = set (object_keys acc) \<union> set (object_keys kvs)"
proof (induction kvs arbitrary: acc)
  case Nil
  then show ?case by (simp add: assign_def)
next
  case (Cons e kvs)
  obtain k v where e: "e = (k, v)" by (cases e)
  have "set (object_keys (assign acc (e # kvs)))
      = set (object_keys (set_prop acc k v)) \<union> set (object_keys kvs)"
    unfolding e assign_Cons by (rule Cons.IH)
  also have "\<dots> = insert k (set (object_keys acc)) \<union> set (object_keys kvs)"
    by (simp only: keys_set_prop)
  finally show ?case by (simp add: e)
qed

lemma map_of_assign_other:
  "k \<notin> set (object_keys kvs) \<Longrightarrow> map_of (assign acc kvs) k = map_of acc k"
proof (induction kvs arbitrary: acc)
  case Nil
  then show ?case by (simp add: assign_def)
next
  case (Cons e kvs)
  obtain k' v' where e: "e = (k', v')" by (cases e)
  from Cons.prems have ne: "k \<noteq> k'" and nin: "k \<notin> set (object_keys kvs)" by (auto simp: e)
  have "map_of (assign acc (e # kvs)) k = map_of (set_prop acc k' v') k"
    unfolding e assign_Cons by (rule Cons.IH [OF nin])
  with ne show ?case by (simp add: map_of_set_prop)
qed

lemma map_of_assign_last:
  "j < length kvs \<Longrightarrow> fst (kvs ! j) \<notin> set (object_keys (drop (Suc j) kvs))
     \<Longrightarrow> map_of (assign acc kvs) (fst (kvs ! j)) = Some (snd (kvs ! j))"
proof (induction kvs arbitrary: acc j)
  case Nil
  then show ?case by simp
next
  case (Cons e kvs)
  obtain k v where e: "e = (k, v)" by (cases e)
  show ?case
  proof (cases j)
    case 0
    with Cons.prems have "k \<notin> set (object_keys kvs)" by (simp add: e)
    then have "map_of (assign (set_prop acc k v) kvs) k = map_of (set_prop acc k v) k"
      by (rule map_of_assign_other)
    then show ?thesis by (simp add: 0 e assign_Cons map_of_set_prop)
  next
    case (Suc j')
    with Cons.prems have "j' < length kvs"
      and "fst (kvs ! j') \<notin> set (object_keys (drop (Suc j') kvs))"
      by simp_all
    from Cons.IH [OF this] show ?thesis by (simp add: Suc e assign_Cons)
  qed
qed

lemma last_key_transfer:
  assumes eq: "object_keys kvs = object_keys fs" and j: "j < length fs"
    and l: "fst (fs ! j) \<notin> set (object_keys (drop (Suc j) fs))"
  shows "fst (kvs ! j) \<notin> set (object_keys (drop (Suc j) kvs))"
proof -
  from eq have len: "length kvs = length fs" by (rule map_eq_imp_length_eq)
  have "fst (kvs ! j) = object_keys kvs ! j" using j len by simp
  also have "\<dots> = fst (fs ! j)" using j by (simp only: eq nth_map)
  finally have k: "fst (kvs ! j) = fst (fs ! j)" .
  have "object_keys (drop (Suc j) kvs) = drop (Suc j) (object_keys kvs)"
    by (simp only: drop_map)
  also have "\<dots> = object_keys (drop (Suc j) fs)" by (simp only: eq drop_map)
  finally show ?thesis using l k by simp
qed

section \<open>Properties of the decoders and of the session\<close>

lemma getFileData_posted: "posted (snd (getFileData h this filePath)) = posted this"
  by (simp add: getFileData_def getArrowData_def getAvroData_def Let_def
        split: sum.splits prod.splits)

lemma getFileData_posted': "getFileData h this filePath = (r, this') \<Longrightarrow> posted this' = posted this"
  using getFileData_posted [of h this filePath] by simp

lemma refresh_cases:
  "refresh h this =
     (case getFileData h this (fileName this) of
        (Inl e, this') \<Rightarrow> Inr (postMessage (ErrorPayload e) this')
      | (Inr None, this') \<Rightarrow> Inr (postMessage (ErrorPayload (TypeError ''length'')) this')
      | (Inr (Some d), this') \<Rightarrow>
          Inr (if 0 < data_length d then postMessage (refresh_message this' d) this' else this'))"
  by (simp add: refresh_def refresh_try_def split: prod.splits sum.splits option.splits)

lemma emit_keeps_posted: "ev \<noteq> End \<Longrightarrow> posted (emit n ev this) = posted this"
  by (cases ev) (simp_all add: emit_def)

lemma emit_length_decoders: "length (decoders (emit n ev this)) = length (decoders this)"
  by (cases ev) (simp_all add: emit_def postMessage_def Let_def)

lemma emit_keeps_fields:
  "fileName (emit n ev this) = fileName this \<and> uri (emit n ev this) = uri this
   \<and> config (emit n ev this) = config this \<and> schema (emit n ev this) = schema this"
  by (cases ev) (simp_all add: emit_def postMessage_def Let_def)

lemma emit_dataRows:
  "n < length (decoders this) \<Longrightarrow> ev \<noteq> End \<Longrightarrow>
   dataRows (decoders (emit n ev this) ! n) = dataRows (decoders this ! n) @ emitted_rows [ev]"
  by (cases ev) (simp_all add: emit_def)

lemma fold_emit_before_end:
  "n < length (decoders this) \<Longrightarrow> End \<notin> set evs \<Longrightarrow>
   n < length (decoders (fold (emit n) evs this))
   \<and> dataRows (decoders (fold (emit n) evs this) ! n)
       = dataRows (decoders this ! n) @ emitted_rows evs
   \<and> posted (fold (emit n) evs this) = posted this
   \<and> refresh_message (fold (emit n) evs this) = refresh_message this"
proof (induction evs arbitrary: this)
  case Nil
  then show ?case by simp
next
  case (Cons ev evs)
  let ?s = "emit n ev this"
  from Cons.prems have ne: "ev \<noteq> End" and rest: "End \<notin> set evs" by auto
  from Cons.prems have n: "n < length (decoders ?s)" by (simp add: emit_length_decoders)
  have rows: "dataRows (decoders ?s ! n) = dataRows (decoders this ! n) @ emitted_rows [ev]"
    using Cons.prems(1) ne by (rule emit_dataRows)
  have e: "emitted_rows (ev # evs) = emitted_rows [ev] @ emitted_rows evs"
    by (cases ev) simp_all
  have m: "refresh_message ?s = refresh_message this"
    by (simp add: refresh_message_def emit_keeps_fields fun_eq_iff)
  from Cons.IH [OF n rest] rows e m ne show ?case by (simp add: emit_keeps_posted)
qed

lemma emit_End:
  "n < length (decoders this) \<Longrightarrow>
   posted (emit n End this)
     = posted this @ [refresh_message this (Rows (map flattenObject (dataRows (decoders this ! n))))]"
  by (simp add: emit_def postMessage_def)

lemma dataTypes_lt: "map_of dataTypes (CHR ''<'' # params) = None"
  by (simp add: dataTypes_def)

lemma dataTypes_empty: "map_of dataTypes [] = None"
  by (simp add: dataTypes_def)

lemma indexOf_absent: "c \<notin> set s \<Longrightarrow> indexOf s c = - 1"
  by (simp add: indexOf_def)

lemma takeWhile_until: "c \<notin> set base \<Longrightarrow> takeWhile (\<lambda>x. x \<noteq> c) (base @ c # rest) = base"
  by (induction base) auto

lemma indexOf_first: "c \<notin> set base \<Longrightarrow> indexOf (base @ c # rest) c = int (length base)"
  by (simp add: indexOf_def takeWhile_until)

lemma substring_prefix: "substring (base @ rest) 0 (int (length base)) = base"
  by (simp add: substring_def Let_def)

lemma map_of_assign: "map_of (assign acc kvs) = map_of acc ++ map_of (rev kvs)"
proof (induction kvs arbitrary: acc)
  case Nil
  then show ?case by (simp add: assign_def)
next
  case (Cons e kvs)
  obtain k v where e: "e = (k, v)" by (cases e)
  have "map_of (assign acc (e # kvs)) = map_of (set_prop acc k v) ++ map_of (rev kvs)"
    unfolding e assign_Cons by (rule Cons.IH)
  also have "\<dots> = map_of acc ++ map_of (rev (e # kvs))"
    by (rule ext) (simp add: e map_of_set_prop map_add_def split: option.splits)
  finally show ?case .
qed


text \<open>With values that are never \<^verbatim>\<open>null\<close>, the assignments to \<^verbatim>\<open>__proto__\<close> are lost and the
  others are plain.\<close>

lemma fold_literal_set_no_null:
  "\<not> null_prototype obj \<Longrightarrow>
   fold (\<lambda>(k, v) obj. literal_set (\<lambda>v. False) obj k v) kvs obj
     = obj\<lparr>props := assign (props obj) (filter (\<lambda>(k, v). k \<noteq> ''__proto__'') kvs)\<rparr>"
proof (induction kvs arbitrary: obj)
  case Nil
  then show ?case by (simp add: assign_def)
next
  case (Cons e kvs)
  obtain k v where e: "e = (k, v)" by (cases e)
  show ?case
  proof (cases "k = ''__proto__''")
    case True
    with Cons.prems have "literal_set (\<lambda>v. False) obj k v = obj" by (simp add: literal_set_def)
    with Cons.IH [OF Cons.prems] True show ?thesis by (simp add: e)
  next
    case False
    then have step: "literal_set (\<lambda>v. False) obj k v = obj\<lparr>props := set_prop (props obj) k v\<rparr>"
      by (simp add: literal_set_def)
    from Cons.prems have "\<not> null_prototype (obj\<lparr>props := set_prop (props obj) k v\<rparr>)" by simp
    from Cons.IH [OF this] False show ?thesis by (simp add: e step assign_Cons)
  qed
qed


lemma arrow_schema_assign:
  "arrow_schema t
     = assign [] (filter (\<lambda>(k, v). k \<noteq> ''__proto__'')
         (map (\<lambda>(name, type). (name, mapType type)) (schema_fields t)))"
proof -
  have "fold (\<lambda>(name, type) sch. literal_set (\<lambda>v. False) sch name (mapType type))
      (schema_fields t) empty_literal
    = fold (\<lambda>(k, v) obj. literal_set (\<lambda>v. False) obj k v)
        (map (\<lambda>(name, type). (name, mapType type)) (schema_fields t)) empty_literal"
    by (simp add: fold_map comp_def case_prod_unfold)
  moreover have np: "\<not> null_prototype (empty_literal :: string option literal_object)"
    by (simp add: empty_literal_def)
  ultimately have "arrow_schema t
      = props (empty_literal\<lparr>props := assign (props empty_literal)
          (filter (\<lambda>(k, v). k \<noteq> ''__proto__'')
            (map (\<lambda>(name, type). (name, mapType type)) (schema_fields t)))\<rparr>)"
    by (simp only: arrow_schema_def fold_literal_set_no_null [OF np])
  then show ?thesis by (simp add: empty_literal_def)
qed


lemma arrow_schema_no_proto: "''__proto__'' \<notin> set (object_keys (arrow_schema t))"
  by (simp only: arrow_schema_assign keys_assign) auto

lemma arrow_schema_entry:
  assumes j: "j < length (schema_fields t)"
    and p: "fst (schema_fields t ! j) \<noteq> ''__proto__''"
    and l: "fst (schema_fields t ! j) \<notin> set (map fst (drop (Suc j) (schema_fields t)))"
  shows "map_of (arrow_schema t) (fst (schema_fields t ! j))
    = Some (mapType (snd (schema_fields t ! j)))"
proof -
  let ?fs = "schema_fields t"
  let ?es = "map (\<lambda>(name, type). (name, mapType type)) ?fs"
  let ?k = "fst (?fs ! j)"
  have k: "object_keys ?es = map fst ?fs" by (simp add: case_prod_unfold comp_def)
  have "fst (?es ! j) \<notin> set (object_keys (drop (Suc j) ?es))"
    using k j l by (rule last_key_transfer)
  moreover have "j < length ?es" using j by simp
  ultimately have "map_of (assign [] ?es) (fst (?es ! j)) = Some (snd (?es ! j))"
    by (rule map_of_assign_last [rotated])
  with j have last: "map_of (rev ?es) ?k = Some (mapType (snd (?fs ! j)))"
    by (simp add: map_of_assign case_prod_unfold)
  have "map_of (arrow_schema t) ?k
      = map_of (filter (\<lambda>(k, v). k \<noteq> ''__proto__'') (rev ?es)) ?k"
    by (simp add: arrow_schema_assign map_of_assign rev_filter)
  also have "\<dots> = Some (mapType (snd (?fs ! j)))"
    using last p by (intro map_of_filter_in) simp_all
  finally show ?thesis .
qed

section \<open>The claims about the decoders and the session\<close>

text \<open>
  Claim C1. \<^verbatim>\<open>getAvroData\<close> returns an empty sequence for every Avro file and posts
  nothing itself. The rows travel through the listeners: whatever events the decoder
  emits, nothing is posted before \<^verbatim>\<open>end\<close>, and \<^verbatim>\<open>end\<close> posts exactly one refresh message,
  carrying every row emitted so far, flattened. A \<^verbatim>\<open>refresh\<close> of an existing \<^verbatim>\<open>.avro\<close>
  file therefore only registers the decoder.
\<close>

theorem getAvroData_returns_empty:
  "fst (getAvroData this p) = []
   \<and> posted (snd (getAvroData this p)) = posted this
   \<and> (\<forall>evs. End \<notin> set evs \<longrightarrow>
        posted (fold (emit (length (decoders this))) evs (snd (getAvroData this p)))
          = posted this
        \<and> posted (fold (emit (length (decoders this))) (evs @ [End]) (snd (getAvroData this p)))
          = posted this @ [refresh_message this (Rows (map flattenObject (emitted_rows evs)))])
   \<and> (existsSync h (data_path h (fsPath this) (fileName this))
        \<and> dataFileExt (fileName this) = ''.avro''
      \<longrightarrow> refresh h this = Inr (snd (getAvroData this (data_path h (fsPath this) (fileName this)))))"
proof (intro conjI allI impI)
  show "fst (getAvroData this p) = []" by (simp add: getAvroData_def)
  show "posted (snd (getAvroData this p)) = posted this" by (simp add: getAvroData_def)
next
  fix evs :: "avro_event list"
  assume noend: "End \<notin> set evs"
  let ?n = "length (decoders this)"
  let ?init = "snd (getAvroData this p)"
  let ?run = "fold (emit ?n) evs ?init"
  have n: "?n < length (decoders ?init)" and c: "dataRows (decoders ?init ! ?n) = []"
    and p: "posted ?init = posted this" and m: "refresh_message ?init = refresh_message this"
    by (simp_all add: getAvroData_def refresh_message_def fun_eq_iff)
  note run = fold_emit_before_end [OF n noend]
  from run p show "posted ?run = posted this" by simp
  from run have "posted (emit ?n End ?run)
      = posted ?run @ [refresh_message ?run (Rows (map flattenObject (dataRows (decoders ?run ! ?n))))]"
    by (simp add: emit_End)
  with run c p m show "posted (fold (emit ?n) (evs @ [End]) ?init)
      = posted this @ [refresh_message this (Rows (map flattenObject (emitted_rows evs)))]"
    by simp
next
  assume "existsSync h (data_path h (fsPath this) (fileName this))
        \<and> dataFileExt (fileName this) = ''.avro''"
  then show "refresh h this
      = Inr (snd (getAvroData this (data_path h (fsPath this) (fileName this))))"
    by (simp add: refresh_cases getFileData_def getAvroData_def)
qed

theorem getAvroData_returns_empty_witness:
  "fst (getAvroData (sample_preview ''rows.avro'') ''/data/rows.avro'') = []
   \<and> posted (snd (getAvroData (sample_preview ''rows.avro'') ''/data/rows.avro'')) = []
   \<and> End \<notin> set [Metadata JNull, Data [(''id'', JNum 1), (''at'', JObj [(''x'', JNum 2)])],
        Data [(''id'', JNum 3)]]
   \<and> posted (fold (emit 0)
        [Metadata JNull, Data [(''id'', JNum 1), (''at'', JObj [(''x'', JNum 2)])],
         Data [(''id'', JNum 3)]]
        (snd (getAvroData (sample_preview ''rows.avro'') ''/data/rows.avro''))) = []
   \<and> posted (fold (emit 0)
        [Metadata JNull, Data [(''id'', JNum 1), (''at'', JObj [(''x'', JNum 2)])],
         Data [(''id'', JNum 3)], End]
        (snd (getAvroData (sample_preview ''rows.avro'') ''/data/rows.avro'')))
       = [Refresh ''rows.avro'' ''file:///data/rows.avro'' (JObj []) None
            (Rows [[(''id'', JNum 1), (''x'', JNum 2)], [(''id'', JNum 3)]])]
   \<and> existsSync sample_host ''/data/rows.avro''
   \<and> dataFileExt ''rows.avro'' = ''.avro''
   \<and> refresh sample_host (sample_preview ''rows.avro'')
       = Inr (snd (getAvroData (sample_preview ''rows.avro'') ''/data/rows.avro''))"
proof -
  let ?P = "sample_preview ''rows.avro''"
  let ?r1 = "[(''id'', JNum 1), (''at'', JObj [(''x'', JNum 2)])]"
  let ?r2 = "[(''id'', JNum 3)]"
  let ?evs = "[Metadata JNull, Data ?r1, Data ?r2]"
  have fl: "map flattenObject (emitted_rows ?evs)
      = [[(''id'', JNum 1), (''x'', JNum 2)], [(''id'', JNum 3)]]"
    by code_simp
  have x: "existsSync sample_host ''/data/rows.avro''" by (simp add: sample_host_def)
  have e: "dataFileExt ''rows.avro'' = ''.avro''"
    by (simp add: dataFileExt_def substr_def lastIndexOf_def)
  have n: "length (decoders ?P) = 0" and f: "fileName ?P = ''rows.avro''"
    and po: "posted ?P = []"
    and m: "refresh_message ?P = Refresh ''rows.avro'' ''file:///data/rows.avro'' (JObj []) None"
    by (simp_all add: sample_preview_def refresh_message_def fun_eq_iff)
  have p: "data_path sample_host (fsPath ?P) ''rows.avro'' = ''/data/rows.avro''"
    by (simp add: sample_host_def)
  have noend: "End \<notin> set ?evs" by simp
  note t = getAvroData_returns_empty [of ?P "''/data/rows.avro''" sample_host, unfolded n f po p]
  from t have "fst (getAvroData ?P ''/data/rows.avro'') = []" by blast
  moreover from t have "posted (snd (getAvroData ?P ''/data/rows.avro'')) = []" by blast
  moreover from t noend have "posted (fold (emit 0) ?evs (snd (getAvroData ?P ''/data/rows.avro''))) = []"
    by blast
  moreover have "posted (fold (emit 0) [Metadata JNull, Data ?r1, Data ?r2, End]
        (snd (getAvroData ?P ''/data/rows.avro'')))
      = [Refresh ''rows.avro'' ''file:///data/rows.avro'' (JObj []) None
          (Rows [[(''id'', JNum 1), (''x'', JNum 2)], [(''id'', JNum 3)]])]"
  proof -
    from t noend have "posted (fold (emit 0) (?evs @ [End])
          (snd (getAvroData ?P ''/data/rows.avro'')))
        = [] @ [refresh_message ?P (Rows (map flattenObject (emitted_rows ?evs)))]"
      by blast
    then show ?thesis by (simp only: fl m append.simps)
  qed
  moreover from t x e have "refresh sample_host ?P = Inr (snd (getAvroData ?P ''/data/rows.avro''))"
    by blast
  ultimately show ?thesis using x e noend by blast
qed

text \<open>
  Claim C2, on the code. For an existing file whose extension is none of the eighteen the
  dispatcher knows, \<^verbatim>\<open>getFileData\<close> decodes nothing, changes nothing and returns
  \<^verbatim>\<open>null\<close>. \<^verbatim>\<open>refresh\<close> then reads \<^verbatim>\<open>data.length\<close> of that \<^verbatim>\<open>null\<close>; the \<^verbatim>\<open>TypeError\<close>
  is caught and posted to the webview as an error payload. So \<^verbatim>\<open>refresh\<close> does not throw,
  but it does post a payload.
\<close>

theorem refresh_unsupported_extension:
  assumes "existsSync h (data_path h (fsPath this) (fileName this))"
    and "dataFileExt (fileName this) \<notin> set
      [''.csv'', ''.tsv'', ''.txt'', ''.tab'', ''.json'',
       ''.xls'', ''.xlsb'', ''.xlsx'', ''.xlsm'', ''.slk'', ''.ods'', ''.prn'',
       ''.dif'', ''.xml'', ''.html'', ''.arrow'', ''.avro'', ''.parquet'']"
  shows "getFileData h this (fileName this) = (Inr None, this)
    \<and> refresh h this = Inr (postMessage (ErrorPayload (TypeError ''length'')) this)"
  using assms by (simp add: getFileData_def refresh_def refresh_try_def)

theorem refresh_unsupported_extension_witness:
  "existsSync sample_host (data_path sample_host (fsPath (sample_preview ''x.foo'')) ''x.foo'')
   \<and> dataFileExt ''x.foo'' = ''.foo''
   \<and> getFileData sample_host (sample_preview ''x.foo'') ''x.foo''
       = (Inr None, sample_preview ''x.foo'')
   \<and> posted (projr (refresh sample_host (sample_preview ''x.foo'')))
       = [ErrorPayload (TypeError ''length'')]"
proof -
  have e: "dataFileExt ''x.foo'' = ''.foo''"
    by (simp add: dataFileExt_def substr_def lastIndexOf_def)
  have x: "existsSync sample_host (data_path sample_host (fsPath (sample_preview ''x.foo'')) ''x.foo'')"
    by (simp add: sample_host_def)
  have f: "fileName (sample_preview ''x.foo'') = ''x.foo''" by (simp add: sample_preview_def)
  from refresh_unsupported_extension [of sample_host "sample_preview ''x.foo''"] x e f
  show ?thesis by (simp add: postMessage_def) (simp add: sample_preview_def)
qed

text \<open>
  Claim C3, on the code. When the resolved path does not exist, \<^verbatim>\<open>getFileData\<close> shows the
  notice that the file does not exist and returns \<^verbatim>\<open>null\<close>. As for claim C2, \<^verbatim>\<open>refresh\<close>
  then reads \<^verbatim>\<open>data.length\<close> of \<^verbatim>\<open>null\<close> and posts the caught \<^verbatim>\<open>TypeError\<close> as an error
  payload.
\<close>

theorem refresh_missing_file:
  assumes "\<not> existsSync h (data_path h (fsPath this) (fileName this))"
  shows "getFileData h this (fileName this)
      = (Inr None, this\<lparr>notices := notices this @ [ErrorMessage (fileName this @ '' doesn't exist!'')]\<rparr>)
    \<and> refresh h this = Inr (postMessage (ErrorPayload (TypeError ''length''))
        (this\<lparr>notices := notices this @ [ErrorMessage (fileName this @ '' doesn't exist!'')]\<rparr>))"
  using assms by (simp add: getFileData_def refresh_def refresh_try_def)

theorem refresh_missing_file_witness:
  "\<not> existsSync sample_host (data_path sample_host (fsPath (sample_preview ''gone.csv'')) ''gone.csv'')
   \<and> notices (snd (getFileData sample_host (sample_preview ''gone.csv'') ''gone.csv''))
       = [ErrorMessage ''gone.csv doesn't exist!'']
   \<and> posted (projr (refresh sample_host (sample_preview ''gone.csv'')))
       = [ErrorPayload (TypeError ''length'')]"
proof -
  have x: "\<not> existsSync sample_host
      (data_path sample_host (fsPath (sample_preview ''gone.csv'')) (fileName (sample_preview ''gone.csv'')))"
    by (simp add: sample_host_def sample_preview_def)
  from refresh_missing_file [OF x] x
  show ?thesis by (simp add: postMessage_def) (simp add: sample_preview_def)
qed

text \<open>
  Claim C4, on the code. A failure a decoder throws while \<^verbatim>\<open>getFileData\<close> runs is caught
  by \<^verbatim>\<open>refresh\<close> and posted to the webview as an error payload, after the messages posted
  before. The Avro decoder fails in another way: \<^verbatim>\<open>refresh\<close> of an existing \<^verbatim>\<open>.avro\<close> file
  returns after registering the listeners and posts nothing; when the block decoder then
  emits \<^verbatim>\<open>error\<close>, the error reaches the event loop uncaught, and neither then nor with any
  later event short of \<^verbatim>\<open>end\<close> is anything posted.
\<close>

theorem refresh_avro_failure_uncaught:
  "(\<forall>e this'. getFileData h this (fileName this) = (Inl e, this')
        \<longrightarrow> refresh h this = Inr (postMessage (ErrorPayload e) this')
          \<and> posted (postMessage (ErrorPayload e) this') = posted this @ [ErrorPayload e])
   \<and> (existsSync h (data_path h (fsPath this) (fileName this))
        \<and> dataFileExt (fileName this) = ''.avro''
      \<longrightarrow> refresh h this = Inr (snd (getAvroData this (data_path h (fsPath this) (fileName this))))
        \<and> posted (snd (getAvroData this (data_path h (fsPath this) (fileName this)))) = posted this
        \<and> uncaught (emit (length (decoders this)) (ErrorEvent err)
              (snd (getAvroData this (data_path h (fsPath this) (fileName this)))))
            = uncaught this @ [err]
        \<and> (\<forall>evs. End \<notin> set evs \<longrightarrow>
              posted (fold (emit (length (decoders this))) (ErrorEvent err # evs)
                (snd (getAvroData this (data_path h (fsPath this) (fileName this)))))
              = posted this))"
proof (intro conjI allI impI)
  fix e this'
  assume g: "getFileData h this (fileName this) = (Inl e, this')"
  then show "refresh h this = Inr (postMessage (ErrorPayload e) this')"
    by (simp add: refresh_cases)
  from g have "posted this' = posted this" by (rule getFileData_posted')
  then show "posted (postMessage (ErrorPayload e) this') = posted this @ [ErrorPayload e]"
    by (simp add: postMessage_def)
next
  let ?p = "data_path h (fsPath this) (fileName this)"
  let ?n = "length (decoders this)"
  let ?init = "snd (getAvroData this ?p)"
  assume a: "existsSync h ?p \<and> dataFileExt (fileName this) = ''.avro''"
  then show "refresh h this = Inr ?init"
    by (simp add: refresh_cases getFileData_def getAvroData_def)
  show p: "posted ?init = posted this" by (simp add: getAvroData_def)
  show "uncaught (emit ?n (ErrorEvent err) ?init) = uncaught this @ [err]"
    by (simp add: getAvroData_def emit_def)
  have n: "?n < length (decoders ?init)" by (simp add: getAvroData_def)
  show "posted (fold (emit ?n) (ErrorEvent err # evs) ?init) = posted this"
    if "End \<notin> set evs" for evs
  proof -
    from that have "End \<notin> set (ErrorEvent err # evs)" by simp
    from fold_emit_before_end [OF n this] p show ?thesis by simp
  qed
qed

theorem refresh_avro_failure_uncaught_witness:
  "getFileData sample_host (sample_preview ''bad.xlsx'') ''bad.xlsx''
     = (Inl (Error ''bad workbook''), sample_preview ''bad.xlsx'')
   \<and> refresh sample_host (sample_preview ''bad.xlsx'')
     = Inr (postMessage (ErrorPayload (Error ''bad workbook'')) (sample_preview ''bad.xlsx''))
   \<and> posted (postMessage (ErrorPayload (Error ''bad workbook'')) (sample_preview ''bad.xlsx''))
     = [ErrorPayload (Error ''bad workbook'')]
   \<and> existsSync sample_host ''/data/bad.avro''
   \<and> dataFileExt ''bad.avro'' = ''.avro''
   \<and> refresh sample_host (sample_preview ''bad.avro'')
     = Inr (snd (getAvroData (sample_preview ''bad.avro'') ''/data/bad.avro''))
   \<and> posted (snd (getAvroData (sample_preview ''bad.avro'') ''/data/bad.avro'')) = []
   \<and> uncaught (emit 0 (ErrorEvent (Error ''invalid magic bytes''))
        (snd (getAvroData (sample_preview ''bad.avro'') ''/data/bad.avro'')))
     = [Error ''invalid magic bytes'']
   \<and> posted (fold (emit 0) [ErrorEvent (Error ''invalid magic bytes'')]
        (snd (getAvroData (sample_preview ''bad.avro'') ''/data/bad.avro''))) = []"
proof -
  let ?P = "sample_preview ''bad.xlsx''"
  let ?A = "sample_preview ''bad.avro''"
  let ?err = "Error ''invalid magic bytes''"
  have f: "fileName ?P = ''bad.xlsx''" and p: "posted ?P = []" by (simp_all add: sample_preview_def)
  have e: "dataFileExt ''bad.xlsx'' = ''.xlsx''"
    by (simp add: dataFileExt_def substr_def lastIndexOf_def)
  have g: "getFileData sample_host ?P ''bad.xlsx'' = (Inl (Error ''bad workbook''), ?P)"
    by (simp add: getFileData_def e getBinaryExcelData_def sample_host_def sample_preview_def
          Let_def)
  have x: "existsSync sample_host ''/data/bad.avro''" by (simp add: sample_host_def)
  have ea: "dataFileExt ''bad.avro'' = ''.avro''"
    by (simp add: dataFileExt_def substr_def lastIndexOf_def)
  have fa: "fileName ?A = ''bad.avro''" and pa: "posted ?A = []" and ua: "uncaught ?A = []"
    and na: "length (decoders ?A) = 0"
    by (simp_all add: sample_preview_def)
  have da: "data_path sample_host (fsPath ?A) ''bad.avro'' = ''/data/bad.avro''"
    by (simp add: sample_host_def)
  have noend: "End \<notin> set ([] :: avro_event list)" by simp
  note sync = refresh_avro_failure_uncaught [of sample_host ?P, unfolded f p]
  note async = refresh_avro_failure_uncaught [of sample_host ?A ?err, unfolded fa pa ua na da]
  from sync g have "refresh sample_host ?P = Inr (postMessage (ErrorPayload (Error ''bad workbook'')) ?P)
      \<and> posted (postMessage (ErrorPayload (Error ''bad workbook'')) ?P)
        = [] @ [ErrorPayload (Error ''bad workbook'')]"
    by blast
  moreover from async x ea
  have "refresh sample_host ?A = Inr (snd (getAvroData ?A ''/data/bad.avro''))
      \<and> posted (snd (getAvroData ?A ''/data/bad.avro'')) = []
      \<and> uncaught (emit 0 (ErrorEvent ?err) (snd (getAvroData ?A ''/data/bad.avro''))) = [] @ [?err]"
    by blast
  moreover from async x ea noend
  have "posted (fold (emit 0) (ErrorEvent ?err # []) (snd (getAvroData ?A ''/data/bad.avro''))) = []"
    by blast
  ultimately show ?thesis using g x ea by simp
qed

text \<open>
  Claim C6. For a type tag \<open>base<params\<close>, where \<open>base\<close> holds no \<^verbatim>\<open><\<close>, the mapping answers
  what it answers for \<open>base\<close> alone, which is the entry of \<open>base\<close> in the table; a base name
  missing from the table maps to \<^verbatim>\<open>undefined\<close>; and the schema built by the Arrow decoder
  holds, for a field with such a tag (the last field of its name, and not named
  \<^verbatim>\<open>__proto__\<close>), the mapping of \<open>base\<close>.
\<close>

theorem mapType_strips_parametrization:
  assumes "CHR ''<'' \<notin> set base"
  shows "mapType (base @ CHR ''<'' # params) = mapType base
    \<and> mapType base = map_of dataTypes base
    \<and> (base \<notin> set (map fst dataTypes) \<longrightarrow> mapType (base @ CHR ''<'' # params) = None)
    \<and> (\<forall>t j. j < length (schema_fields t)
          \<and> fst (schema_fields t ! j) \<noteq> ''__proto__''
          \<and> fst (schema_fields t ! j) \<notin> set (map fst (drop (Suc j) (schema_fields t)))
          \<and> snd (schema_fields t ! j) = base @ CHR ''<'' # params
        \<longrightarrow> map_of (arrow_schema t) (fst (schema_fields t ! j)) = Some (mapType base))"
proof -
  have plain: "mapType base = map_of dataTypes base"
    using assms by (simp add: mapType_def indexOf_absent)
  have cut: "mapType (base @ CHR ''<'' # params) = map_of dataTypes base"
  proof (cases "base = []")
    case True
    then show ?thesis by (simp add: mapType_def indexOf_def dataTypes_lt dataTypes_empty)
  next
    case False
    then have "0 < int (length base)" by simp
    then show ?thesis
      using assms by (simp add: mapType_def indexOf_first substring_prefix)
  qed
  have unknown: "base \<notin> set (map fst dataTypes) \<Longrightarrow> map_of dataTypes base = None"
    by (simp add: map_of_eq_None_iff)
  have entry: "map_of (arrow_schema t) (fst (schema_fields t ! j)) = Some (mapType base)"
    if "j < length (schema_fields t)
          \<and> fst (schema_fields t ! j) \<noteq> ''__proto__''
          \<and> fst (schema_fields t ! j) \<notin> set (map fst (drop (Suc j) (schema_fields t)))
          \<and> snd (schema_fields t ! j) = base @ CHR ''<'' # params" for t j
    using that arrow_schema_entry [of j t] plain cut by simp
  from plain cut unknown entry show ?thesis by simp
qed

theorem mapType_strips_parametrization_witness:
  "CHR ''<'' \<notin> set ''List''
   \<and> mapType ''List<Int32>'' = mapType ''List''
   \<and> ''List'' \<notin> set (map fst dataTypes)
   \<and> mapType ''List<Int32>'' = None
   \<and> map_of (arrow_schema sample_table) ''tags'' = Some (mapType ''List'')"
proof -
  have a: "CHR ''<'' \<notin> set ''List''" by simp
  have u: "''List'' \<notin> set (map fst dataTypes)" by (simp add: dataTypes_def)
  have f: "(1::nat) < length (schema_fields sample_table)
      \<and> fst (schema_fields sample_table ! 1) \<noteq> ''__proto__''
      \<and> fst (schema_fields sample_table ! 1)
          \<notin> set (map fst (drop (Suc 1) (schema_fields sample_table)))
      \<and> snd (schema_fields sample_table ! 1) = ''List'' @ CHR ''<'' # ''Utf8>''"
    by (simp add: sample_table_def)
  have n: "fst (schema_fields sample_table ! 1) = ''tags''" by (simp add: sample_table_def)
  note t = mapType_strips_parametrization [OF a]
  note t1 = t [of "''Int32>''", unfolded append.simps]
  from t1 have "mapType ''List<Int32>'' = mapType ''List''" by blast
  moreover from t1 u have "mapType ''List<Int32>'' = None" by blast
  moreover from t [of "''Utf8>''"] f
  have "map_of (arrow_schema sample_table) (fst (schema_fields sample_table ! 1))
      = Some (mapType ''List'')"
    by blast
  ultimately show ?thesis using a u n by simp
qed




text \<open>
  Claim C8. \<^verbatim>\<open>getExcelData\<close> returns no rows for a workbook without sheets, and for any
  other workbook the row conversion of the sheet under the first sheet name, whatever the
  other sheets are; both spreadsheet decoders return what \<^verbatim>\<open>getExcelData\<close> returns for
  the workbook they read.
\<close>

theorem getExcelData_first_sheet:
  "(SheetNames workbook = [] \<longrightarrow> getExcelData h workbook = Inr [])
   \<and> (\<forall>first others. SheetNames workbook = first # others
        \<longrightarrow> getExcelData h workbook = sheet_to_json h (Sheets workbook first))
   \<and> (\<forall>p. xlsx_readFile h p type_binary = Inr workbook
        \<longrightarrow> getBinaryExcelData h p = getExcelData h workbook)
   \<and> (\<forall>p. xlsx_readFile h p type_file = Inr workbook
        \<longrightarrow> getTextExcelData h p = getExcelData h workbook)"
  by (simp add: getExcelData_def getBinaryExcelData_def getTextExcelData_def)

theorem getExcelData_first_sheet_witness:
  "SheetNames \<lparr>SheetNames = [], Sheets = Map.empty\<rparr> = []
   \<and> getExcelData sample_host \<lparr>SheetNames = [], Sheets = Map.empty\<rparr> = Inr []
   \<and> SheetNames sample_workbook = ''S1'' # [''S2'']
   \<and> getExcelData sample_host sample_workbook = Inr [[(''a'', JNum 1)]]
   \<and> xlsx_readFile sample_host ''/data/x.xlsx'' type_binary = Inr sample_workbook
   \<and> getBinaryExcelData sample_host ''/data/x.xlsx'' = Inr [[(''a'', JNum 1)]]
   \<and> xlsx_readFile sample_host ''/data/x.xml'' type_file = Inr sample_workbook
   \<and> getTextExcelData sample_host ''/data/x.xml'' = Inr [[(''a'', JNum 1)]]"
proof -
  have n: "SheetNames sample_workbook = ''S1'' # [''S2'']" by (simp add: sample_workbook_def)
  have s: "sheet_to_json sample_host (Sheets sample_workbook ''S1'') = Inr [[(''a'', JNum 1)]]"
    by (simp add: sample_host_def sample_workbook_def)
  have b: "xlsx_readFile sample_host ''/data/x.xlsx'' type_binary = Inr sample_workbook"
    and f: "xlsx_readFile sample_host ''/data/x.xml'' type_file = Inr sample_workbook"
    by (simp_all add: sample_host_def)
  have e: "SheetNames \<lparr>SheetNames = [], Sheets = (Map.empty :: string \<Rightarrow> string option)\<rparr> = []"
    by simp
  from getExcelData_first_sheet [of "\<lparr>SheetNames = [], Sheets = Map.empty\<rparr>" sample_host] e
  have "getExcelData sample_host \<lparr>SheetNames = [], Sheets = Map.empty\<rparr> = Inr []"
    by blast
  moreover from getExcelData_first_sheet [of sample_workbook sample_host] n s
  have "getExcelData sample_host sample_workbook = Inr [[(''a'', JNum 1)]]"
    by simp
  moreover from getExcelData_first_sheet [of sample_workbook sample_host] b calculation(2)
  have "getBinaryExcelData sample_host ''/data/x.xlsx'' = Inr [[(''a'', JNum 1)]]"
    by simp
  moreover from getExcelData_first_sheet [of sample_workbook sample_host] f calculation(2)
  have "getTextExcelData sample_host ''/data/x.xml'' = Inr [[(''a'', JNum 1)]]"
    by simp
  ultimately show ?thesis using n b f by simp
qed

text \<open>
  Claim C9. For an existing file with one of the extensions \<^verbatim>\<open>.csv\<close>, \<^verbatim>\<open>.tsv\<close>, \<^verbatim>\<open>.txt\<close>,
  \<^verbatim>\<open>.tab\<close>, \<^verbatim>\<open>.json\<close>, \<^verbatim>\<open>getFileData\<close> returns the text the file read returns, as one
  string, and leaves the session (its schema included) as it was.
\<close>

theorem getFileData_text_unmodified:
  assumes "existsSync h (data_path h (fsPath this) filePath)"
    and "dataFileExt filePath \<in> set [''.csv'', ''.tsv'', ''.txt'', ''.tab'', ''.json'']"
    and "readFileSync_utf8 h (data_path h (fsPath this) filePath) = Inr text"
  shows "getFileData h this filePath = (Inr (Some (Text text)), this)"
  using assms by (simp add: getFileData_def)

theorem getFileData_text_unmodified_witness:
  "existsSync sample_host (data_path sample_host (fsPath (sample_preview ''x.csv'')) ''x.csv'')
   \<and> dataFileExt ''x.csv'' \<in> set [''.csv'', ''.tsv'', ''.txt'', ''.tab'', ''.json'']
   \<and> readFileSync_utf8 sample_host (data_path sample_host (fsPath (sample_preview ''x.csv'')) ''x.csv'')
       = Inr ''a,b\<newline>1,2\<newline>''
   \<and> getFileData sample_host (sample_preview ''x.csv'') ''x.csv''
       = (Inr (Some (Text ''a,b\<newline>1,2\<newline>'')), sample_preview ''x.csv'')"
proof -
  have x: "existsSync sample_host (data_path sample_host (fsPath (sample_preview ''x.csv'')) ''x.csv'')"
    by (simp add: sample_host_def)
  have e: "dataFileExt ''x.csv'' \<in> set [''.csv'', ''.tsv'', ''.txt'', ''.tab'', ''.json'']"
    by (simp add: dataFileExt_def substr_def lastIndexOf_def)
  have r: "readFileSync_utf8 sample_host
      (data_path sample_host (fsPath (sample_preview ''x.csv'')) ''x.csv'') = Inr ''a,b\<newline>1,2\<newline>''"
    by (simp add: sample_host_def)
  from getFileData_text_unmodified [OF x e r] x e r show ?thesis by blast
qed

text \<open>
  Claim C10. When \<^verbatim>\<open>getFileData\<close> returns data of length zero, \<^verbatim>\<open>refresh\<close> posts nothing;
  and whenever \<^verbatim>\<open>refresh\<close> posts a refresh message, the data in it is not empty.
\<close>

theorem refresh_empty_data_posts_nothing:
  "(\<forall>d this'. getFileData h this (fileName this) = (Inr (Some d), this') \<and> data_length d = 0
        \<longrightarrow> refresh h this = Inr this' \<and> posted this' = posted this)
   \<and> (\<forall>this'' f u c sc d. refresh h this = Inr this''
        \<and> posted this'' = posted this @ [Refresh f u c sc d] \<longrightarrow> 0 < data_length d)"
proof (intro conjI allI impI)
  fix d this'
  assume a: "getFileData h this (fileName this) = (Inr (Some d), this') \<and> data_length d = 0"
  then show "refresh h this = Inr this'" by (simp add: refresh_cases)
  from a show "posted this' = posted this" using getFileData_posted' by blast
next
  fix this'' f u c sc d
  assume a: "refresh h this = Inr this'' \<and> posted this'' = posted this @ [Refresh f u c sc d]"
  obtain r this' where g: "getFileData h this (fileName this) = (r, this')"
    by (cases "getFileData h this (fileName this)")
  then have p: "posted this' = posted this" by (rule getFileData_posted')
  show "0 < data_length d"
  proof (cases r)
    case (Inl e)
    with a g p show ?thesis by (auto simp: refresh_cases postMessage_def)
  next
    case (Inr od)
    show ?thesis
    proof (cases od)
      case None
      with a g p Inr show ?thesis by (auto simp: refresh_cases postMessage_def)
    next
      case (Some d')
      with a g p Inr show ?thesis
        by (auto simp: refresh_cases postMessage_def refresh_message_def split: if_splits)
    qed
  qed
qed

theorem refresh_empty_data_posts_nothing_witness:
  "getFileData sample_host (sample_preview ''empty.csv'') ''empty.csv''
     = (Inr (Some (Text [])), sample_preview ''empty.csv'')
   \<and> data_length (Text []) = 0
   \<and> refresh sample_host (sample_preview ''empty.csv'') = Inr (sample_preview ''empty.csv'')
   \<and> posted (sample_preview ''empty.csv'') = []
   \<and> refresh sample_host (sample_preview ''x.csv'')
     = Inr (postMessage (refresh_message (sample_preview ''x.csv'') (Text ''a,b\<newline>1,2\<newline>''))
         (sample_preview ''x.csv''))
   \<and> 0 < data_length (Text ''a,b\<newline>1,2\<newline>'')"
proof -
  let ?E = "sample_preview ''empty.csv''"
  let ?X = "sample_preview ''x.csv''"
  have fe: "fileName ?E = ''empty.csv''" and pe: "posted ?E = []"
    and fx: "fileName ?X = ''x.csv''" and px: "posted ?X = []"
    by (simp_all add: sample_preview_def)
  have ee: "dataFileExt ''empty.csv'' = ''.csv''" and ex: "dataFileExt ''x.csv'' = ''.csv''"
    by (simp_all add: dataFileExt_def substr_def lastIndexOf_def)
  have ge: "getFileData sample_host ?E ''empty.csv'' = (Inr (Some (Text [])), ?E)"
    by (simp add: getFileData_def ee sample_host_def sample_preview_def Let_def)
  have gx: "getFileData sample_host ?X ''x.csv'' = (Inr (Some (Text ''a,b\<newline>1,2\<newline>'')), ?X)"
    by (simp add: getFileData_def ex sample_host_def sample_preview_def Let_def)
  have rx: "refresh sample_host ?X
      = Inr (postMessage (refresh_message ?X (Text ''a,b\<newline>1,2\<newline>'')) ?X)"
    by (simp add: refresh_cases fx gx)
  have mx: "posted (postMessage (refresh_message ?X (Text ''a,b\<newline>1,2\<newline>'')) ?X)
      = posted ?X @ [Refresh (fileName ?X) (uri ?X) (config ?X) (schema ?X) (Text ''a,b\<newline>1,2\<newline>'')]"
    by (simp add: postMessage_def refresh_message_def)
  from refresh_empty_data_posts_nothing [of sample_host ?E] ge fe
  have "refresh sample_host ?E = Inr ?E" by simp
  moreover from refresh_empty_data_posts_nothing [of sample_host ?X] rx mx
  have "0 < data_length (Text ''a,b\<newline>1,2\<newline>'')" by blast
  ultimately show ?thesis using ge pe rx by simp
qed

end
